theory Spec2Isabelle
  imports Main "HOL-Library.Word"
begin

unbundle bit_operations_syntax

section \<open>Data model of package varint\<close>

text \<open>
  Go's \<open>byte\<close> and \<open>uint64\<close> are machine words; \<open>int\<close> (lengths, indices, the
  consumed count) is modelled as \<open>int\<close>, all values that occur being between 0 and 8.
  A conversion \<open>byte(x)\<close> or \<open>uint64(x)\<close> is \<open>ucast\<close>, \<open>x >> n\<close> is
  \<open>drop_bit n x\<close>, \<open>x << n\<close> is \<open>push_bit n x\<close>.
\<close>

type_synonym byte = "8 word"
type_synonym uint64 = "64 word"

definition Min :: uint64 where
  "Min = 0"

definition Max :: uint64 where
  "Max = 0x3FFFFFFFFFFFFFFF"

text \<open>The internal maximums \<open>_maxVarInt1\<close> .. \<open>_maxVarInt8\<close> of each encoding length.\<close>

definition maxVarInt1 :: uint64 where
  "maxVarInt1 = 0x3F"

definition maxVarInt2 :: uint64 where
  "maxVarInt2 = 0x3FFF"

definition maxVarInt4 :: uint64 where
  "maxVarInt4 = 0x3FFFFFFF"

definition maxVarInt8 :: uint64 where
  "maxVarInt8 = Max"

text \<open>
  Values of Go's \<open>error\<close> interface that the package returns or passes on:
  \<open>io.EOF\<close>, \<open>io.ErrUnexpectedEOF\<close>, and any other error of a caller-supplied
  reader or writer.
\<close>

datatype error = EOF | ErrUnexpectedEOF | OtherError string

text \<open>
  A panic ends the call without a result. \<open>varintLengthError\<close> is the package's own
  panic value; \<open>IndexOutOfRange\<close> is the run-time panic of a slice index outside
  the slice; \<open>PanicString\<close> is \<open>panic("...")\<close>.
\<close>

datatype panic = varintLengthError (Num: uint64) | IndexOutOfRange | PanicString string

section \<open>Len\<close>

definition Len :: "uint64 \<Rightarrow> panic + int" where
  "Len v =
     (if drop_bit 6 v = 0 then Inr 1
      else if drop_bit 14 v = 0 then Inr 2
      else if drop_bit 30 v = 0 then Inr 4
      else if drop_bit 62 v = 0 then Inr 8
      else Inl (varintLengthError v))"

section \<open>Append\<close>

text \<open>
  \<open>append(dst, x\<^sub>1, ..., x\<^sub>n)\<close> returns a slice holding the elements of \<open>dst\<close> followed
  by \<open>x\<^sub>1, ..., x\<^sub>n\<close>.
\<close>

definition Append :: "byte list \<Rightarrow> uint64 \<Rightarrow> panic + byte list" where
  "Append dst v =
     (if v \<le> maxVarInt1 then
        Inr (dst @ [ucast v])
      else if v \<le> maxVarInt2 then
        Inr (dst @
          [ucast (drop_bit 8 v AND 0x3F) OR 0x40,
           ucast v])
      else if v \<le> maxVarInt4 then
        Inr (dst @
          [ucast (drop_bit 24 v AND 0x3F) OR 0x80,
           ucast (drop_bit 16 v),
           ucast (drop_bit 8 v),
           ucast v])
      else if v \<le> maxVarInt8 then
        Inr (dst @
          [ucast (drop_bit 56 v AND 0x3F) OR 0xC0,
           ucast (drop_bit 48 v),
           ucast (drop_bit 40 v),
           ucast (drop_bit 32 v),
           ucast (drop_bit 24 v),
           ucast (drop_bit 16 v),
           ucast (drop_bit 8 v),
           ucast v])
      else Inl (varintLengthError v))"

section \<open>Parse\<close>

text \<open>
  The loop \<open>for i := 1; i < length; i++ { value = (value << 8) | uint64(b[i]) }\<close>.
  An index outside \<open>b\<close> panics in Go.
\<close>

function Parse_loop :: "byte list \<Rightarrow> int \<Rightarrow> int \<Rightarrow> uint64 \<Rightarrow> panic + uint64" where
  "Parse_loop b len i val =
     (if i < len then
        (if 0 \<le> i \<and> i < int (length b)
         then Parse_loop b len (i + 1) (push_bit 8 val OR ucast (b ! nat i))
         else Inl IndexOutOfRange)
      else Inr val)"
  by pat_completeness auto
termination
  by (relation "measure (\<lambda>(b, len, i, val). nat (len - i))") auto

declare Parse_loop.simps [simp del]

text \<open>The result triple is \<open>(value, consumed, err)\<close>; \<open>err = nil\<close> is \<open>None\<close>.\<close>

definition Parse :: "byte list \<Rightarrow> panic + (uint64 \<times> int \<times> error option)" where
  "Parse b =
     (if length b = 0 then Inr (0, 0, Some EOF)
      else
        let first = b ! 0;
            len = push_bit (unat (drop_bit 6 first)) (1 :: int)
        in if int (length b) < len then Inr (0, 0, Some ErrUnexpectedEOF)
           else (case Parse_loop b len 1 (ucast (first AND 0x3f)) of
                   Inl p \<Rightarrow> Inl p
                 | Inr val \<Rightarrow> Inr (val, len, None)))"

section \<open>Read\<close>

text \<open>
  An \<open>io.ByteReader\<close> is any value with a method \<open>ReadByte() (byte, error)\<close>. The
  method is a function from the reader's state to the returned pair and the new state.
\<close>

type_synonym 'r ByteReader = "'r \<Rightarrow> (byte \<times> error option) \<times> 'r"

text \<open>
  The result of \<open>Read\<close> is \<open>(uint64, error)\<close>, or a panic, together with the state
  the reader is left in.
\<close>

type_synonym 'r Read_result = "(panic + uint64 \<times> error option) \<times> 'r"

text \<open>
  The statement pair \<open>b, err := r.ReadByte(); if err != nil { return 0, err }\<close>,
  followed by the rest \<open>k\<close> of the function body.
\<close>

definition ReadByte_or_return ::
    "'r ByteReader \<Rightarrow> 'r \<Rightarrow> (byte \<Rightarrow> 'r \<Rightarrow> 'r Read_result) \<Rightarrow> 'r Read_result" where
  "ReadByte_or_return ReadByte r k =
     (case ReadByte r of
        ((b, Some err), r') \<Rightarrow> (Inr (0, Some err), r')
      | ((b, None), r') \<Rightarrow> k b r')"

definition Read :: "'r ByteReader \<Rightarrow> 'r \<Rightarrow> 'r Read_result" where
  "Read ReadByte r =
     ReadByte_or_return ReadByte r (\<lambda>b0 r.
       if drop_bit 6 b0 = 0 then
         (Inr (ucast (b0 AND 0x3F), None), r)
       else if drop_bit 6 b0 = 1 then
         ReadByte_or_return ReadByte r (\<lambda>b1 r.
           (Inr (push_bit 8 (ucast (b0 AND 0x3F)) OR ucast b1, None), r))
       else if drop_bit 6 b0 = 2 then
         ReadByte_or_return ReadByte r (\<lambda>b1 r.
         ReadByte_or_return ReadByte r (\<lambda>b2 r.
         ReadByte_or_return ReadByte r (\<lambda>b3 r.
           (Inr (((push_bit 24 (ucast (b0 AND 0x3F)) OR
                   push_bit 16 (ucast b1)) OR
                   push_bit 8 (ucast b2)) OR
                   ucast b3, None), r))))
       else if drop_bit 6 b0 = 3 then
         ReadByte_or_return ReadByte r (\<lambda>b1 r.
         ReadByte_or_return ReadByte r (\<lambda>b2 r.
         ReadByte_or_return ReadByte r (\<lambda>b3 r.
         ReadByte_or_return ReadByte r (\<lambda>b4 r.
         ReadByte_or_return ReadByte r (\<lambda>b5 r.
         ReadByte_or_return ReadByte r (\<lambda>b6 r.
         ReadByte_or_return ReadByte r (\<lambda>b7 r.
           (Inr (((((((push_bit 56 (ucast (b0 AND 0x3F)) OR
                       push_bit 48 (ucast b1)) OR
                       push_bit 40 (ucast b2)) OR
                       push_bit 32 (ucast b3)) OR
                       push_bit 24 (ucast b4)) OR
                       push_bit 16 (ucast b5)) OR
                       push_bit 8 (ucast b6)) OR
                       ucast b7, None), r))))))))
       else (Inl (PanicString ''unreachable''), r))"

text \<open>
  The byte source of the repository's benchmark of \<open>Read\<close> is Go's \<open>bytes.Reader\<close>
  over a byte slice: its \<open>ReadByte\<close> returns the next unread byte, and \<open>(0, io.EOF)\<close>
  once all bytes are read. Its state is the list of unread bytes.
\<close>

fun bytesReader_ReadByte :: "byte list ByteReader" where
  "bytesReader_ReadByte [] = ((0, Some EOF), [])"
| "bytesReader_ReadByte (c # cs) = ((c, None), cs)"

section \<open>Write\<close>

text \<open>
  An \<open>io.ByteWriter\<close> is any value with a method \<open>WriteByte(c byte) error\<close>: a
  function from the writer's state and the byte to the returned error and the new state.
\<close>

type_synonym 'w ByteWriter = "'w \<Rightarrow> byte \<Rightarrow> error option \<times> 'w"

type_synonym 'w Write_result = "(panic + error option) \<times> 'w"

text \<open>
  The statement \<open>if err := w.WriteByte(c); err != nil { return err }\<close> followed by the
  rest \<open>k\<close> of the function body, and the final \<open>return w.WriteByte(c)\<close>.
\<close>

definition WriteByte_or_return ::
    "'w ByteWriter \<Rightarrow> 'w \<Rightarrow> byte \<Rightarrow> ('w \<Rightarrow> 'w Write_result) \<Rightarrow> 'w Write_result" where
  "WriteByte_or_return WriteByte w c k =
     (case WriteByte w c of
        (Some err, w') \<Rightarrow> (Inr (Some err), w')
      | (None, w') \<Rightarrow> k w')"

definition return_WriteByte :: "'w ByteWriter \<Rightarrow> 'w \<Rightarrow> byte \<Rightarrow> 'w Write_result" where
  "return_WriteByte WriteByte w c = (case WriteByte w c of (err, w') \<Rightarrow> (Inr err, w'))"

definition Write :: "'w ByteWriter \<Rightarrow> 'w \<Rightarrow> uint64 \<Rightarrow> 'w Write_result" where
  "Write WriteByte w v =
     (if v \<le> maxVarInt1 then
        return_WriteByte WriteByte w (ucast v)
      else if v \<le> maxVarInt2 then
        WriteByte_or_return WriteByte w (ucast (drop_bit 8 v AND 0x3F) OR 0x40) (\<lambda>w.
        return_WriteByte WriteByte w (ucast v))
      else if v \<le> maxVarInt4 then
        WriteByte_or_return WriteByte w (ucast (drop_bit 24 v AND 0x3F) OR 0x80) (\<lambda>w.
        WriteByte_or_return WriteByte w (ucast (drop_bit 16 v)) (\<lambda>w.
        WriteByte_or_return WriteByte w (ucast (drop_bit 8 v)) (\<lambda>w.
        return_WriteByte WriteByte w (ucast v))))
      else if v \<le> maxVarInt8 then
        WriteByte_or_return WriteByte w (ucast (drop_bit 56 v AND 0x3F) OR 0xC0) (\<lambda>w.
        WriteByte_or_return WriteByte w (ucast (drop_bit 48 v)) (\<lambda>w.
        WriteByte_or_return WriteByte w (ucast (drop_bit 40 v)) (\<lambda>w.
        WriteByte_or_return WriteByte w (ucast (drop_bit 32 v)) (\<lambda>w.
        WriteByte_or_return WriteByte w (ucast (drop_bit 24 v)) (\<lambda>w.
        WriteByte_or_return WriteByte w (ucast (drop_bit 16 v)) (\<lambda>w.
        WriteByte_or_return WriteByte w (ucast (drop_bit 8 v)) (\<lambda>w.
        return_WriteByte WriteByte w (ucast v))))))))
      else (Inl (varintLengthError v), w))"

text \<open>
  To speak of the bytes pushed to a sink, the sink is observed: \<open>recording WriteByte\<close>
  behaves as \<open>WriteByte\<close> and keeps, beside the sink's own state, the list of all bytes
  passed to it so far, in the order of the calls.
\<close>

definition recording :: "'w ByteWriter \<Rightarrow> ('w \<times> byte list) ByteWriter" where
  "recording WriteByte =
     (\<lambda>(w, pushed) c. case WriteByte w c of (err, w') \<Rightarrow> (err, (w', pushed @ [c])))"

text \<open>
  The sink \<open>discardByteWriter\<close> of the repository's benchmark file: its \<open>WriteByte\<close>
  returns nil and keeps nothing.
\<close>

definition discardByteWriter_WriteByte :: "unit ByteWriter" where
  "discardByteWriter_WriteByte w c = (None, w)"

section \<open>The wire format table of the specification\<close>

text \<open>
  The payload of an encoding of \<open>n\<close> bytes has \<open>6 + 8 \<times> (n - 1)\<close> bits: 6, 14, 30 and
  62 bits for the lengths 1, 2, 4 and 8. A length admits a value that fits in its payload.
\<close>

definition payload_bits :: "int \<Rightarrow> nat" where
  "payload_bits n = 6 + 8 * (nat n - 1)"

definition admits :: "int \<Rightarrow> uint64 \<Rightarrow> bool" where
  "admits n v \<longleftrightarrow> unat v < 2 ^ payload_bits n"

text \<open>The length that the tag bits of a first byte declare: \<open>1 << (first >> 6)\<close>.\<close>

definition declared_length :: "byte \<Rightarrow> int" where
  "declared_length first = push_bit (unat (drop_bit 6 first)) (1 :: int)"

section \<open>Bit-level facts\<close>

lemma le_iff_drop_bit:
  assumes "n < 64" shows "(v :: uint64) \<le> 2 ^ n - 1 \<longleftrightarrow> drop_bit n v = 0"
proof -
  have "(2 :: uint64) ^ n \<noteq> 0" using assms by simp
  then have "v \<le> 2 ^ n - 1 \<longleftrightarrow> v < 2 ^ n"
    by (simp add: less_eq_dec_iff)
  also have "\<dots> \<longleftrightarrow> uint v < 2 ^ n" using assms by (simp add: word_2p_lem word_size)
  also have "\<dots> \<longleftrightarrow> take_bit n v = v" by (metis take_bit_eq_mask mask_eq_iff)
  also have "\<dots> \<longleftrightarrow> drop_bit n v = 0" by (rule take_bit_eq_self_iff_drop_bit_eq_0)
  finally show ?thesis .
qed

lemma le63: "(v :: uint64) \<le> 0x3F \<longleftrightarrow> drop_bit 6 v = 0"
  using le_iff_drop_bit [of 6 v] by simp
lemma le14: "(v :: uint64) \<le> 0x3FFF \<longleftrightarrow> drop_bit 14 v = 0"
  using le_iff_drop_bit [of 14 v] by simp
lemma le30: "(v :: uint64) \<le> 0x3FFFFFFF \<longleftrightarrow> drop_bit 30 v = 0"
  using le_iff_drop_bit [of 30 v] by simp
lemma le62: "(v :: uint64) \<le> 0x3FFFFFFFFFFFFFFF \<longleftrightarrow> drop_bit 62 v = 0"
  using le_iff_drop_bit [of 62 v] by simp

lemma bit_3F: "bit (0x3F::int) n \<longleftrightarrow> n < 6"
  using bit_mask_iff [where ?'a = int, of 6 n] by (auto simp: mask_eq_exp_minus_1)
lemma bit_3: "bit (3::int) n \<longleftrightarrow> n < 2"
  using bit_mask_iff [where ?'a = int, of 2 n] by (auto simp: mask_eq_exp_minus_1)
lemma bit_40: "bit (0x40::int) n \<longleftrightarrow> n = 6"
  using bit_exp_iff [where ?'a = int, of 6 n] by auto
lemma bit_80: "bit (0x80::int) n \<longleftrightarrow> n = 7"
  using bit_exp_iff [where ?'a = int, of 7 n] by auto
lemma bit_C0: "bit (0xC0::int) n \<longleftrightarrow> n = 6 \<or> n = 7"
proof -
  have "(0xC0::int) = 0x40 OR 0x80" by simp
  then show ?thesis by (simp only: bit_or_iff bit_40 bit_80)
qed

lemmas const_bits = bit_3F bit_3 bit_40 bit_80 bit_C0

lemma tag0: "drop_bit 6 (ucast (take_bit 6 (w::uint64)) :: byte) = 0"
  by (rule bit_word_eqI) (auto simp: bit_simps)

lemma val1:
  "ucast ((ucast (take_bit 6 w) :: byte) AND 0x3F) = take_bit 6 (w::uint64)"
  by (rule bit_word_eqI) (auto simp: bit_simps const_bits)

lemma val2:
  "push_bit 8 (ucast ((ucast (drop_bit 8 (take_bit 14 w) AND 0x3F) OR 0x40 :: byte) AND 0x3F)) OR ucast (ucast (take_bit 14 w) :: byte) = take_bit 14 (w::uint64)"
  by (rule bit_word_eqI) (auto simp: bit_simps const_bits)

lemma val4:
  "push_bit 8 (push_bit 8 (push_bit 8 (ucast ((ucast (drop_bit 24 (take_bit 30 w) AND 0x3F) OR 0x80 :: byte) AND 0x3F))
      OR ucast (ucast (drop_bit 16 (take_bit 30 w)) :: byte))
      OR ucast (ucast (drop_bit 8 (take_bit 30 w)) :: byte))
      OR ucast (ucast (take_bit 30 w) :: byte) = take_bit 30 (w::uint64)"
  by (rule bit_word_eqI) (auto simp: bit_simps const_bits)

lemma val8:
  "push_bit 8 (push_bit 8 (push_bit 8 (push_bit 8 (push_bit 8 (push_bit 8 (push_bit 8 (ucast ((ucast (drop_bit 56 (take_bit 62 w) AND 0x3F) OR 0xC0 :: byte) AND 0x3F))
      OR ucast (ucast (drop_bit 48 (take_bit 62 w)) :: byte))
      OR ucast (ucast (drop_bit 40 (take_bit 62 w)) :: byte))
      OR ucast (ucast (drop_bit 32 (take_bit 62 w)) :: byte))
      OR ucast (ucast (drop_bit 24 (take_bit 62 w)) :: byte))
      OR ucast (ucast (drop_bit 16 (take_bit 62 w)) :: byte))
      OR ucast (ucast (drop_bit 8 (take_bit 62 w)) :: byte))
      OR ucast (ucast (take_bit 62 w) :: byte) = take_bit 62 (w::uint64)" (is "?l = ?r")
proof (rule bit_word_eqI)
  fix n :: nat
  assume "n < LENGTH(64)"
  consider "n < 8" | "8 \<le> n" "n < 16" | "16 \<le> n" "n < 24" | "24 \<le> n" "n < 32" | "32 \<le> n" "n < 40"
    | "40 \<le> n" "n < 48" | "48 \<le> n" "n < 56" | "56 \<le> n" "n < 62" | "62 \<le> n" by linarith
  then show "bit ?l n = bit ?r n"
    by cases (simp_all add: bit_simps const_bits less_diff_conv2, auto)
qed

lemma take_bit_self: "drop_bit n (v::uint64) = 0 \<Longrightarrow> take_bit n v = v"
  by (simp add: take_bit_eq_self_iff_drop_bit_eq_0)

lemma maxVarInt_chain:
  "v \<le> maxVarInt1 \<Longrightarrow> v \<le> maxVarInt2"
  "v \<le> maxVarInt2 \<Longrightarrow> v \<le> maxVarInt4"
  "v \<le> maxVarInt4 \<Longrightarrow> v \<le> maxVarInt8"
proof -
  have "maxVarInt1 \<le> maxVarInt2" "maxVarInt2 \<le> maxVarInt4" "maxVarInt4 \<le> maxVarInt8"
    by (simp_all add: maxVarInt1_def maxVarInt2_def maxVarInt4_def maxVarInt8_def Max_def)
  then show "v \<le> maxVarInt1 \<Longrightarrow> v \<le> maxVarInt2"
  "v \<le> maxVarInt2 \<Longrightarrow> v \<le> maxVarInt4"
  "v \<le> maxVarInt4 \<Longrightarrow> v \<le> maxVarInt8"
    by (auto intro: order_trans)
qed

lemma Parse_loop_1: "Parse_loop b 1 1 x = Inr x"
  by (simp add: Parse_loop.simps)

lemma Parse_loop_2:
  "2 \<le> length b \<Longrightarrow> Parse_loop b 2 1 x = Inr (push_bit 8 x OR ucast (b ! 1))"
  by (simp add: Parse_loop.simps)

lemma Parse_loop_4:
  "4 \<le> length b \<Longrightarrow> Parse_loop b 4 1 x =
     Inr (push_bit 8 (push_bit 8 (push_bit 8 x OR ucast (b ! 1)) OR ucast (b ! 2)) OR ucast (b ! 3))"
  by (simp add: Parse_loop.simps)

lemma Parse_loop_8:
  "8 \<le> length b \<Longrightarrow> Parse_loop b 8 1 x =
     Inr (push_bit 8 (push_bit 8 (push_bit 8 (push_bit 8 (push_bit 8 (push_bit 8 (push_bit 8 x
       OR ucast (b ! 1)) OR ucast (b ! 2)) OR ucast (b ! 3)) OR ucast (b ! 4))
       OR ucast (b ! 5)) OR ucast (b ! 6)) OR ucast (b ! 7))"
  by (simp add: Parse_loop.simps)

lemma tag_cases:
  fixes x :: byte
  obtains "drop_bit 6 x = 0" | "drop_bit 6 x = 1" | "drop_bit 6 x = 2" | "drop_bit 6 x = 3"
proof -
  have "unat x < 256" using unsigned_less [of x] by simp
  moreover have "unat (drop_bit 6 x) = unat x div 2 ^ 6"
    by (metis drop_bit_eq_div unat_drop_bit_eq)
  ultimately have "unat (drop_bit 6 x) < 4"
    by simp
  then consider "unat (drop_bit 6 x) = 0" | "unat (drop_bit 6 x) = 1"
     | "unat (drop_bit 6 x) = 2" | "unat (drop_bit 6 x) = 3" by linarith
  then have "drop_bit 6 x = 0 \<or> drop_bit 6 x = 1 \<or> drop_bit 6 x = 2 \<or> drop_bit 6 x = 3"
    by cases (simp_all add: word_unat_eq_iff)
  then show thesis using that by blast
qed

subsection \<open>Parse by the tag of the first byte\<close>

lemma Parse_tag0:
  "b \<noteq> [] \<Longrightarrow> drop_bit 6 (b ! 0) = 0 \<Longrightarrow> Parse b = Inr (ucast (b ! 0 AND 0x3f), 1, None)"
  by (cases b) (simp_all add: Parse_def Parse_loop_1)

lemma Parse_tag1:
  "b \<noteq> [] \<Longrightarrow> drop_bit 6 (b ! 0) = 1 \<Longrightarrow> Parse b =
     (if length b < 2 then Inr (0, 0, Some ErrUnexpectedEOF)
      else Inr (push_bit 8 (ucast (b ! 0 AND 0x3f)) OR ucast (b ! 1), 2, None))"
  by (simp add: Parse_def Parse_loop_2)

lemma Parse_tag2:
  "b \<noteq> [] \<Longrightarrow> drop_bit 6 (b ! 0) = 2 \<Longrightarrow> Parse b =
     (if length b < 4 then Inr (0, 0, Some ErrUnexpectedEOF)
      else Inr (push_bit 8 (push_bit 8 (push_bit 8 (ucast (b ! 0 AND 0x3f))
             OR ucast (b ! 1)) OR ucast (b ! 2)) OR ucast (b ! 3), 4, None))"
  by (simp add: Parse_def Parse_loop_4)

lemma Parse_tag3:
  "b \<noteq> [] \<Longrightarrow> drop_bit 6 (b ! 0) = 3 \<Longrightarrow> Parse b =
     (if length b < 8 then Inr (0, 0, Some ErrUnexpectedEOF)
      else Inr (push_bit 8 (push_bit 8 (push_bit 8 (push_bit 8 (push_bit 8 (push_bit 8 (push_bit 8
             (ucast (b ! 0 AND 0x3f))
             OR ucast (b ! 1)) OR ucast (b ! 2)) OR ucast (b ! 3)) OR ucast (b ! 4))
             OR ucast (b ! 5)) OR ucast (b ! 6)) OR ucast (b ! 7), 8, None))"
  by (simp add: Parse_def Parse_loop_8)

lemma tagA1: "drop_bit 6 (ucast ((y::uint64) AND 0x3F) OR 0x40 :: byte) = 1"
  by (rule bit_word_eqI) (auto simp: bit_simps const_bits)

lemma tagA2: "drop_bit 6 (ucast ((y::uint64) AND 0x3F) OR 0x80 :: byte) = 2"
  by (rule bit_word_eqI) (auto simp: bit_simps const_bits)

lemma tagA3: "drop_bit 6 (ucast ((y::uint64) AND 0x3F) OR 0xC0 :: byte) = 3"
  by (rule bit_word_eqI) (auto simp: bit_simps const_bits)

lemma size_cases:
  assumes "v \<le> Max"
  obtains (1) "v \<le> maxVarInt1" "drop_bit 6 v = 0"
  | (2) "\<not> v \<le> maxVarInt1" "v \<le> maxVarInt2" "drop_bit 6 v \<noteq> 0" "drop_bit 14 v = 0"
  | (4) "\<not> v \<le> maxVarInt1" "\<not> v \<le> maxVarInt2" "v \<le> maxVarInt4"
        "drop_bit 6 v \<noteq> 0" "drop_bit 14 v \<noteq> 0" "drop_bit 30 v = 0"
  | (8) "\<not> v \<le> maxVarInt1" "\<not> v \<le> maxVarInt2" "\<not> v \<le> maxVarInt4" "v \<le> maxVarInt8"
        "drop_bit 6 v \<noteq> 0" "drop_bit 14 v \<noteq> 0" "drop_bit 30 v \<noteq> 0" "drop_bit 62 v = 0"
proof -
  have "v \<le> maxVarInt8" using assms by (simp add: maxVarInt8_def)
  then show thesis
    using that maxVarInt_chain [of v]
    unfolding maxVarInt1_def maxVarInt2_def maxVarInt4_def maxVarInt8_def Max_def le63 le14 le30 le62
    by blast
qed

lemma unat_lt_iff_drop_bit:
  "unat (v :: uint64) < 2 ^ n \<longleftrightarrow> drop_bit n v = 0"
proof -
  have "unat v < 2 ^ n \<longleftrightarrow> take_bit n v = v"
    by (metis unsigned_take_bit_eq word_unat_eq_iff take_bit_nat_eq_self_iff)
  then show ?thesis by (simp add: take_bit_eq_self_iff_drop_bit_eq_0)
qed

lemma drop_bit_zero_mono:
  assumes "drop_bit m (v :: uint64) = 0" "m \<le> n" shows "drop_bit n v = 0"
proof -
  have "drop_bit n v = drop_bit (n - m) (drop_bit m v)"
    using assms(2) by (simp add: drop_bit_drop_bit)
  then show ?thesis using assms(1) by simp
qed

lemma declared_length_tag:
  "drop_bit 6 x = 0 \<Longrightarrow> declared_length x = 1"
  "drop_bit 6 x = 1 \<Longrightarrow> declared_length x = 2"
  "drop_bit 6 x = 2 \<Longrightarrow> declared_length x = 4"
  "drop_bit 6 x = 3 \<Longrightarrow> declared_length x = 8"
  by (simp_all add: declared_length_def)

lemma out_of_range:
  assumes "Max < v"
  shows "\<not> v \<le> maxVarInt1" "\<not> v \<le> maxVarInt2" "\<not> v \<le> maxVarInt4" "\<not> v \<le> maxVarInt8"
proof -
  show 8: "\<not> v \<le> maxVarInt8" using assms by (simp add: maxVarInt8_def)
  then show 4: "\<not> v \<le> maxVarInt4" using maxVarInt_chain(3) by blast
  then show 2: "\<not> v \<le> maxVarInt2" using maxVarInt_chain(2) by blast
  then show "\<not> v \<le> maxVarInt1" using maxVarInt_chain(1) by blast
qed

subsection \<open>Decoding an encoding\<close>

lemma Parse_enc1:
  assumes "drop_bit 6 v = 0"
  shows "Parse [ucast v] = Inr (v, 1, None)"
proof -
  have t: "take_bit 6 v = v" using assms by (rule take_bit_self)
  show ?thesis using tag0 [of v] val1 [of v] by (simp add: t Parse_tag0)
qed

lemma Parse_enc2:
  assumes "drop_bit 14 v = 0"
  shows "Parse [ucast (drop_bit 8 v AND 0x3F) OR 0x40, ucast v] = Inr (v, 2, None)"
proof -
  have t: "take_bit 14 v = v" using assms by (rule take_bit_self)
  have "drop_bit 6 ([ucast (drop_bit 8 v AND 0x3F) OR 0x40, ucast v] ! 0) = (1 :: byte)"
    by (simp only: nth_Cons_0) (rule tagA1)
  from Parse_tag1 [OF _ this] val2 [of v] show ?thesis by (simp add: t)
qed

lemma Parse_enc4:
  assumes "drop_bit 30 v = 0"
  shows "Parse [ucast (drop_bit 24 v AND 0x3F) OR 0x80, ucast (drop_bit 16 v),
           ucast (drop_bit 8 v), ucast v] = Inr (v, 4, None)"
proof -
  have t: "take_bit 30 v = v" using assms by (rule take_bit_self)
  have "drop_bit 6 ([ucast (drop_bit 24 v AND 0x3F) OR 0x80, ucast (drop_bit 16 v),
           ucast (drop_bit 8 v), ucast v] ! 0) = (2 :: byte)"
    by (simp only: nth_Cons_0) (rule tagA2)
  from Parse_tag2 [OF _ this] val4 [of v] show ?thesis by (simp add: t)
qed

lemma Parse_enc8:
  assumes "drop_bit 62 v = 0"
  shows "Parse [ucast (drop_bit 56 v AND 0x3F) OR 0xC0, ucast (drop_bit 48 v),
           ucast (drop_bit 40 v), ucast (drop_bit 32 v), ucast (drop_bit 24 v),
           ucast (drop_bit 16 v), ucast (drop_bit 8 v), ucast v] = Inr (v, 8, None)"
proof -
  have t: "take_bit 62 v = v" using assms by (rule take_bit_self)
  have "drop_bit 6 ([ucast (drop_bit 56 v AND 0x3F) OR 0xC0, ucast (drop_bit 48 v),
           ucast (drop_bit 40 v), ucast (drop_bit 32 v), ucast (drop_bit 24 v),
           ucast (drop_bit 16 v), ucast (drop_bit 8 v), ucast v] ! 0) = (3 :: byte)"
    by (simp only: nth_Cons_0) (rule tagA3)
  from Parse_tag3 [OF _ this] val8 [of v] show ?thesis by (simp add: t)
qed

subsection \<open>Read from a byte slice\<close>

lemma ReadByte_or_return_bytes:
  "ReadByte_or_return bytesReader_ReadByte b k =
     (case b of [] \<Rightarrow> (Inr (0, Some EOF), []) | c # cs \<Rightarrow> k c cs)"
  by (cases b) (simp_all add: ReadByte_or_return_def)

lemma Read_bytes_tag0:
  "drop_bit 6 b0 = 0 \<Longrightarrow>
   Read bytesReader_ReadByte (b0 # rest) = (Inr (ucast (b0 AND 0x3F), None), rest)"
  by (simp add: Read_def ReadByte_or_return_bytes)

lemma Read_bytes_tag1:
  "drop_bit 6 b0 = 1 \<Longrightarrow>
   Read bytesReader_ReadByte (b0 # b1 # rest) =
     (Inr (push_bit 8 (ucast (b0 AND 0x3F)) OR ucast b1, None), rest)"
  by (simp add: Read_def ReadByte_or_return_bytes)

lemma Read_bytes_tag2:
  "drop_bit 6 b0 = 2 \<Longrightarrow>
   Read bytesReader_ReadByte (b0 # b1 # b2 # b3 # rest) =
     (Inr (push_bit 8 (push_bit 8 (push_bit 8 (ucast (b0 AND 0x3F))
        OR ucast b1) OR ucast b2) OR ucast b3, None), rest)"
  by (simp add: Read_def ReadByte_or_return_bytes or.assoc)

lemma Read_bytes_tag3:
  "drop_bit 6 b0 = 3 \<Longrightarrow>
   Read bytesReader_ReadByte (b0 # b1 # b2 # b3 # b4 # b5 # b6 # b7 # rest) =
     (Inr (push_bit 8 (push_bit 8 (push_bit 8 (push_bit 8 (push_bit 8 (push_bit 8 (push_bit 8
        (ucast (b0 AND 0x3F))
        OR ucast b1) OR ucast b2) OR ucast b3) OR ucast b4)
        OR ucast b5) OR ucast b6) OR ucast b7, None), rest)"
  by (simp add: Read_def ReadByte_or_return_bytes or.assoc)

lemma Read_enc1:
  assumes "drop_bit 6 v = 0"
  shows "Read bytesReader_ReadByte [ucast v] = (Inr (v, None), [])"
proof -
  have t: "take_bit 6 v = v" using assms by (rule take_bit_self)
  have "drop_bit 6 (ucast v :: byte) = 0" using tag0 [of v] by (simp add: t)
  from Read_bytes_tag0 [OF this] val1 [of v] show ?thesis by (simp add: t)
qed

lemma Read_enc2:
  assumes "drop_bit 14 v = 0"
  shows "Read bytesReader_ReadByte [ucast (drop_bit 8 v AND 0x3F) OR 0x40, ucast v] =
           (Inr (v, None), [])"
proof -
  have t: "take_bit 14 v = v" using assms by (rule take_bit_self)
  from Read_bytes_tag1 [OF tagA1] val2 [of v] show ?thesis by (simp add: t)
qed

lemma Read_enc4:
  assumes "drop_bit 30 v = 0"
  shows "Read bytesReader_ReadByte [ucast (drop_bit 24 v AND 0x3F) OR 0x80,
           ucast (drop_bit 16 v), ucast (drop_bit 8 v), ucast v] = (Inr (v, None), [])"
proof -
  have t: "take_bit 30 v = v" using assms by (rule take_bit_self)
  from Read_bytes_tag2 [OF tagA2] val4 [of v] show ?thesis by (simp add: t)
qed

lemma Read_enc8:
  assumes "drop_bit 62 v = 0"
  shows "Read bytesReader_ReadByte [ucast (drop_bit 56 v AND 0x3F) OR 0xC0,
           ucast (drop_bit 48 v), ucast (drop_bit 40 v), ucast (drop_bit 32 v),
           ucast (drop_bit 24 v), ucast (drop_bit 16 v), ucast (drop_bit 8 v), ucast v] =
           (Inr (v, None), [])"
proof -
  have t: "take_bit 62 v = v" using assms by (rule take_bit_self)
  from Read_bytes_tag3 [OF tagA3] val8 [of v] show ?thesis by (simp add: t)
qed

subsection \<open>Decoded values have at most 62 bits\<close>

lemma bound1: "drop_bit 62 (ucast (b0 AND 0x3F :: byte) :: uint64) = 0"
  by (rule bit_word_eqI) (auto simp add: bit_simps const_bits dest: bit_imp_le_length)

lemma bound2:
  "drop_bit 62 (push_bit 8 (ucast (b0 AND 0x3F :: byte)) OR ucast (b1 :: byte) :: uint64) = 0"
  by (rule bit_word_eqI) (auto simp add: bit_simps const_bits dest: bit_imp_le_length)

lemma bound4:
  "drop_bit 62 (((push_bit 24 (ucast (b0 AND 0x3F :: byte)) OR
                   push_bit 16 (ucast (b1 :: byte))) OR
                   push_bit 8 (ucast (b2 :: byte))) OR
                   ucast (b3 :: byte) :: uint64) = 0"
  by (rule bit_word_eqI) (auto simp add: bit_simps const_bits dest: bit_imp_le_length)

lemma bound8:
  "drop_bit 62 (((((((push_bit 56 (ucast (b0 AND 0x3F :: byte)) OR
                       push_bit 48 (ucast (b1 :: byte))) OR
                       push_bit 40 (ucast (b2 :: byte))) OR
                       push_bit 32 (ucast (b3 :: byte))) OR
                       push_bit 24 (ucast (b4 :: byte))) OR
                       push_bit 16 (ucast (b5 :: byte))) OR
                       push_bit 8 (ucast (b6 :: byte))) OR
                       ucast (b7 :: byte) :: uint64) = 0"
  by (rule bit_word_eqI) (auto simp add: bit_simps const_bits dest: bit_imp_le_length)

lemma Parse_value_bound:
  assumes "Parse b = Inr (val, n, err)"
  shows "drop_bit 62 val = 0"
proof (cases "b = []")
  case True
  then show ?thesis using assms by (simp add: Parse_def)
next
  case False
  show ?thesis
  proof (cases "b ! 0" rule: tag_cases)
    case 1
    from Parse_tag0 [OF False 1] assms bound1 [of "b ! 0"] show ?thesis by auto
  next
    case 2
    from Parse_tag1 [OF False 2] assms bound2 [of "b ! 0" "b ! 1"] show ?thesis
      by (auto split: if_splits)
  next
    case 3
    from Parse_tag2 [OF False 3] assms bound4 [of "b ! 0" "b ! 1" "b ! 2" "b ! 3"] show ?thesis
      by (auto simp: or.assoc split: if_splits)
  next
    case 4
    from Parse_tag3 [OF False 4] assms
      bound8 [of "b ! 0" "b ! 1" "b ! 2" "b ! 3" "b ! 4" "b ! 5" "b ! 6" "b ! 7"] show ?thesis
      by (auto simp: or.assoc split: if_splits)
  qed
qed

lemma ReadByte_or_return_success:
  assumes "fst (ReadByte_or_return R r k) = Inr (val, None)"
  obtains c r' where "fst (k c r') = Inr (val, None)"
  using assms by (auto simp: ReadByte_or_return_def split: prod.splits option.splits)

lemma Read_value_bound:
  fixes R :: "'r ByteReader"
  assumes "fst (Read R r) = Inr (val, None)"
  shows "drop_bit 62 val = 0"
  using assms unfolding Read_def
proof (elim ReadByte_or_return_success)
  fix b0 :: byte and r1 :: 'r
  assume *: "fst (if drop_bit 6 b0 = 0 then
         (Inr (ucast (b0 AND 0x3F), None), r1)
       else if drop_bit 6 b0 = 1 then
         ReadByte_or_return R r1 (\<lambda>b1 r.
           (Inr (push_bit 8 (ucast (b0 AND 0x3F)) OR ucast b1, None), r))
       else if drop_bit 6 b0 = 2 then
         ReadByte_or_return R r1 (\<lambda>b1 r.
         ReadByte_or_return R r (\<lambda>b2 r.
         ReadByte_or_return R r (\<lambda>b3 r.
           (Inr (((push_bit 24 (ucast (b0 AND 0x3F)) OR
                   push_bit 16 (ucast b1)) OR
                   push_bit 8 (ucast b2)) OR
                   ucast b3, None), r))))
       else if drop_bit 6 b0 = 3 then
         ReadByte_or_return R r1 (\<lambda>b1 r.
         ReadByte_or_return R r (\<lambda>b2 r.
         ReadByte_or_return R r (\<lambda>b3 r.
         ReadByte_or_return R r (\<lambda>b4 r.
         ReadByte_or_return R r (\<lambda>b5 r.
         ReadByte_or_return R r (\<lambda>b6 r.
         ReadByte_or_return R r (\<lambda>b7 r.
           (Inr (((((((push_bit 56 (ucast (b0 AND 0x3F)) OR
                       push_bit 48 (ucast b1)) OR
                       push_bit 40 (ucast b2)) OR
                       push_bit 32 (ucast b3)) OR
                       push_bit 24 (ucast b4)) OR
                       push_bit 16 (ucast b5)) OR
                       push_bit 8 (ucast b6)) OR
                       ucast b7, None), r))))))))
       else (Inl (PanicString ''unreachable''), r1)) = Inr (val, None)"
  show "drop_bit 62 val = 0"
  proof (cases b0 rule: tag_cases)
    case 1
    with * bound1 [of b0] show ?thesis by auto
  next
    case 2
    with * have "fst (ReadByte_or_return R r1 (\<lambda>b1 r.
           (Inr (push_bit 8 (ucast (b0 AND 0x3F)) OR ucast b1, None), r))) = Inr (val, None)"
      by simp
    then show ?thesis
      by (elim ReadByte_or_return_success) (use bound2 [of b0] in auto)
  next
    case 3
    with * have "fst (ReadByte_or_return R r1 (\<lambda>b1 r.
         ReadByte_or_return R r (\<lambda>b2 r.
         ReadByte_or_return R r (\<lambda>b3 r.
           (Inr (((push_bit 24 (ucast (b0 AND 0x3F)) OR
                   push_bit 16 (ucast b1)) OR
                   push_bit 8 (ucast b2)) OR
                   ucast b3, None), r))))) = Inr (val, None)"
      by simp
    then show ?thesis
      by (elim ReadByte_or_return_success) (use bound4 [of b0] in auto)
  next
    case 4
    with * have "fst (ReadByte_or_return R r1 (\<lambda>b1 r.
         ReadByte_or_return R r (\<lambda>b2 r.
         ReadByte_or_return R r (\<lambda>b3 r.
         ReadByte_or_return R r (\<lambda>b4 r.
         ReadByte_or_return R r (\<lambda>b5 r.
         ReadByte_or_return R r (\<lambda>b6 r.
         ReadByte_or_return R r (\<lambda>b7 r.
           (Inr (((((((push_bit 56 (ucast (b0 AND 0x3F)) OR
                       push_bit 48 (ucast b1)) OR
                       push_bit 40 (ucast b2)) OR
                       push_bit 32 (ucast b3)) OR
                       push_bit 24 (ucast b4)) OR
                       push_bit 16 (ucast b5)) OR
                       push_bit 8 (ucast b6)) OR
                       ucast b7, None), r))))))))) = Inr (val, None)"
      by simp
    then show ?thesis
      by (elim ReadByte_or_return_success) (use bound8 [of b0] in auto)
  qed
qed

lemma Append_in_range:
  assumes "drop_bit 62 v = 0"
  shows "v \<le> Max" and "\<exists>enc. Append [] v = Inr enc"
proof -
  show "v \<le> Max" using assms by (simp add: Max_def le62)
  then show "\<exists>enc. Append [] v = Inr enc"
    by (cases v rule: size_cases) (simp_all add: Append_def)
qed

subsection \<open>Read from a truncated byte slice\<close>

lemma Read_bytes_truncated:
  assumes "b = [] \<or> int (length b) < declared_length (b ! 0)"
  shows "Read bytesReader_ReadByte b = (Inr (0, Some EOF), [])"
proof (cases b)
  case Nil
  then show ?thesis by (simp add: Read_def ReadByte_or_return_bytes)
next
  case (Cons b0 rest)
  show ?thesis
  proof (cases b0 rule: tag_cases)
    case 1
    then show ?thesis using assms Cons by (simp add: declared_length_tag)
  next
    case 2
    then show ?thesis using assms Cons
      by (auto simp add: declared_length_tag Read_def ReadByte_or_return_bytes
          split: list.splits)
  next
    case 3
    then show ?thesis using assms Cons
      by (auto simp add: declared_length_tag Read_def ReadByte_or_return_bytes
          split: list.splits)
  next
    case 4
    then show ?thesis using assms Cons
      by (auto simp add: declared_length_tag Read_def ReadByte_or_return_bytes
          split: list.splits)
  qed
qed

subsection \<open>Observed sinks\<close>

lemma recording_accepting:
  assumes "\<forall>w c. fst (WriteByte w c) = None"
  shows "WriteByte_or_return (recording WriteByte) (w, pushed) c k =
           k (snd (WriteByte w c), pushed @ [c])"
    and "return_WriteByte (recording WriteByte) (w, pushed) c =
           (Inr None, (snd (WriteByte w c), pushed @ [c]))"
proof -
  obtain w' where "WriteByte w c = (None, w')"
    using assms by (metis fst_conv surj_pair)
  then show "WriteByte_or_return (recording WriteByte) (w, pushed) c k =
           k (snd (WriteByte w c), pushed @ [c])"
    and "return_WriteByte (recording WriteByte) (w, pushed) c =
           (Inr None, (snd (WriteByte w c), pushed @ [c]))"
    by (simp_all add: WriteByte_or_return_def return_WriteByte_def recording_def)
qed

section \<open>The wire format at the boundaries of the four lengths\<close>

text \<open>
  C2. \<open>Append([], 63)\<close> is the single byte 0x3F; 64 and 16383 give 2 bytes; 16384 and
  1073741823 give 4 bytes; 1073741824 gives 8 bytes; and 4611686018427387903 (\<open>Max\<close>)
  gives the 8 bytes 0xFF, ..., 0xFF.
\<close>

theorem Append_boundaries:
  "Append [] 63 = Inr [0x3F] \<and>
   Append [] 64 = Inr [0x40, 0x40] \<and>
   map_sum id length (Append [] 64) = Inr 2 \<and>
   Append [] 16383 = Inr [0x7F, 0xFF] \<and>
   map_sum id length (Append [] 16383) = Inr 2 \<and>
   Append [] 16384 = Inr [0x80, 0x00, 0x40, 0x00] \<and>
   map_sum id length (Append [] 16384) = Inr 4 \<and>
   Append [] 1073741823 = Inr [0xBF, 0xFF, 0xFF, 0xFF] \<and>
   map_sum id length (Append [] 1073741823) = Inr 4 \<and>
   Append [] 1073741824 = Inr [0xC0, 0x00, 0x00, 0x00, 0x40, 0x00, 0x00, 0x00] \<and>
   map_sum id length (Append [] 1073741824) = Inr 8 \<and>
   Append [] 4611686018427387903 = Inr [0xFF, 0xFF, 0xFF, 0xFF, 0xFF, 0xFF, 0xFF, 0xFF]"
  by (simp add: Append_def maxVarInt1_def maxVarInt2_def maxVarInt4_def maxVarInt8_def Max_def)

section \<open>Round trip\<close>

text \<open>
  C1. For every value \<open>v\<close> in \<open>[0, 2\<^sup>6\<^sup>2 - 1]\<close>, parsing the result of appending
  \<open>v\<close> to an empty buffer succeeds and returns \<open>v\<close>, a consumed count equal to
  \<open>Len v\<close>, and no error.
\<close>

theorem Parse_Append_roundtrip:
  assumes "v \<le> Max"
  shows "\<exists>bs n. Append [] v = Inr bs \<and> Len v = Inr n \<and> Parse bs = Inr (v, n, None)"
  using assms
proof (cases v rule: size_cases)
  case 1
  then show ?thesis by (simp add: Append_def Len_def Parse_enc1)
next
  case 2
  then show ?thesis by (simp add: Append_def Len_def Parse_enc2)
next
  case 4
  then show ?thesis by (simp add: Append_def Len_def Parse_enc4)
next
  case 8
  then show ?thesis by (simp add: Append_def Len_def Parse_enc8)
qed

theorem Parse_Append_roundtrip_witness:
  "(300 :: uint64) \<le> Max \<and>
   (\<exists>bs n. Append [] 300 = Inr bs \<and> Len 300 = Inr n \<and> Parse bs = Inr (300, n, None))"
  using Parse_Append_roundtrip [of 300] by (simp add: Max_def)

section \<open>Len\<close>

text \<open>
  C3. \<open>Len v\<close> returns 1 when \<open>v \<le> 2\<^sup>6 - 1\<close>, otherwise 2 when \<open>v \<le> 2\<^sup>1\<^sup>4 - 1\<close>,
  otherwise 4 when \<open>v \<le> 2\<^sup>3\<^sup>0 - 1\<close>, otherwise 8 when \<open>v \<le> 2\<^sup>6\<^sup>2 - 1\<close>; the length
  returned is the smallest of 1, 2, 4, 8 whose payload bits admit \<open>v\<close>; and for every
  \<open>v > 2\<^sup>6\<^sup>2 - 1\<close> the call fails (it panics with \<open>varintLengthError\<close>) instead of
  returning a length.
\<close>

theorem Len_spec:
  "(v \<le> 2 ^ 6 - 1 \<longrightarrow> Len v = Inr 1) \<and>
   (2 ^ 6 - 1 < v \<and> v \<le> 2 ^ 14 - 1 \<longrightarrow> Len v = Inr 2) \<and>
   (2 ^ 14 - 1 < v \<and> v \<le> 2 ^ 30 - 1 \<longrightarrow> Len v = Inr 4) \<and>
   (2 ^ 30 - 1 < v \<and> v \<le> 2 ^ 62 - 1 \<longrightarrow> Len v = Inr 8) \<and>
   (2 ^ 62 - 1 < v \<longrightarrow> Len v = Inl (varintLengthError v)) \<and>
   (\<forall>n. Len v = Inr n \<longrightarrow>
      n \<in> {1, 2, 4, 8} \<and> admits n v \<and> (\<forall>m \<in> {1, 2, 4, 8}. admits m v \<longrightarrow> n \<le> m))"
proof -
  have a: "admits 1 v \<longleftrightarrow> drop_bit 6 v = 0" "admits 2 v \<longleftrightarrow> drop_bit 14 v = 0"
    "admits 4 v \<longleftrightarrow> drop_bit 30 v = 0" "admits 8 v \<longleftrightarrow> drop_bit 62 v = 0"
    using unat_lt_iff_drop_bit [of v 6] unat_lt_iff_drop_bit [of v 14]
      unat_lt_iff_drop_bit [of v 30] unat_lt_iff_drop_bit [of v 62]
    by (simp_all add: admits_def payload_bits_def)
  have m: "drop_bit 6 v = 0 \<Longrightarrow> drop_bit 14 v = 0" "drop_bit 14 v = 0 \<Longrightarrow> drop_bit 30 v = 0"
    "drop_bit 30 v = 0 \<Longrightarrow> drop_bit 62 v = 0"
    by (erule drop_bit_zero_mono, simp)+
  show ?thesis
    using m by (auto simp add: Len_def a le63 le14 le30 le62 simp flip: not_le)
qed

theorem Len_spec_witness:
  "(100 :: uint64) \<le> 2 ^ 14 - 1 \<and> Len 100 = Inr 2 \<and> admits 2 100 \<and> \<not> admits 1 100 \<and>
   (2 ^ 62 - 1 < (2 ^ 62 :: uint64) \<and> Len (2 ^ 62) = Inl (varintLengthError (2 ^ 62)))"
  using Len_spec [of 100] Len_spec [of "2 ^ 62"] by auto

section \<open>Truncated input of Parse\<close>

text \<open>
  C5. \<open>Parse([])\<close> fails with \<open>io.EOF\<close>, the empty-input error; and for every non-empty
  input whose length is less than the length declared by the tag bits of its first byte,
  as for \<open>Parse([0xC0])\<close>, \<open>Parse\<close> fails with \<open>io.ErrUnexpectedEOF\<close>, the truncation
  error, and the value returned with it is 0.
\<close>

theorem Parse_truncated:
  "Parse [] = Inr (0, 0, Some EOF) \<and>
   Parse [0xC0] = Inr (0, 0, Some ErrUnexpectedEOF) \<and>
   (\<forall>b. b \<noteq> [] \<and> int (length b) < declared_length (b ! 0) \<longrightarrow>
        Parse b = Inr (0, 0, Some ErrUnexpectedEOF))"
  by (simp add: Parse_def declared_length_def)

theorem Parse_truncated_witness:
  "[0x80, 0x01, 0x02] \<noteq> ([] :: byte list) \<and>
   int (length [0x80, 0x01, 0x02 :: byte]) < declared_length ([0x80, 0x01, 0x02] ! 0) \<and>
   Parse [0x80, 0x01, 0x02] = Inr (0, 0, Some ErrUnexpectedEOF)"
  using Parse_truncated by (simp add: declared_length_def)

section \<open>Append extends the destination\<close>

text \<open>
  C8. For every destination buffer \<open>dst\<close> and every \<open>v \<le> 2\<^sup>6\<^sup>2 - 1\<close>, \<open>Append dst v\<close>
  returns the contents of \<open>dst\<close> unchanged, followed by the bytes of the encoding of
  \<open>v\<close>; for every \<open>v > 2\<^sup>6\<^sup>2 - 1\<close> it fails with the out-of-range panic and returns
  no slice, so that no partial encoding is produced.
\<close>

theorem Append_frame:
  "(v \<le> Max \<longrightarrow>
      (\<exists>enc. Append [] v = Inr enc \<and> Len v = Inr (int (length enc)) \<and>
             Append dst v = Inr (dst @ enc))) \<and>
   (Max < v \<longrightarrow> Append dst v = Inl (varintLengthError v))"
proof (intro conjI impI)
  assume "v \<le> Max"
  then show "\<exists>enc. Append [] v = Inr enc \<and> Len v = Inr (int (length enc)) \<and>
             Append dst v = Inr (dst @ enc)"
    by (cases v rule: size_cases) (simp_all add: Append_def Len_def)
next
  assume "Max < v"
  from out_of_range [OF this] show "Append dst v = Inl (varintLengthError v)"
    by (simp add: Append_def)
qed

theorem Append_frame_witness:
  "(300 :: uint64) \<le> Max \<and> Append [] 300 = Inr [0x41, 0x2C] \<and>
   Append [0x01, 0x02] 300 = Inr [0x01, 0x02, 0x41, 0x2C] \<and>
   Max < 2 ^ 62 \<and> Append [0x01, 0x02] (2 ^ 62) = Inl (varintLengthError (2 ^ 62))"
  using Append_frame [of 300 "[0x01, 0x02]"] Append_frame [of "2 ^ 62" "[0x01, 0x02]"]
  by (auto simp add: Max_def Append_def maxVarInt1_def maxVarInt2_def)

section \<open>Parse reads the declared length and no more\<close>

text \<open>
  C9. For every non-empty byte sequence \<open>b\<close> at least as long as the length
  \<open>1 << (b[0] >> 6)\<close> that its first byte declares, \<open>Parse b\<close> succeeds, the consumed
  count is that declared length, and the result depends only on the first
  declared-length bytes of \<open>b\<close>: whatever bytes follow them, the value, the consumed
  count and the error are the same.
\<close>

theorem Parse_bounded_consumption:
  assumes "b \<noteq> []" and "declared_length (b ! 0) \<le> int (length b)"
  shows "\<exists>val. Parse b = Inr (val, declared_length (b ! 0), None) \<and>
           (\<forall>extra. Parse (take (nat (declared_length (b ! 0))) b @ extra) =
                      Inr (val, declared_length (b ! 0), None))"
proof (cases "b ! 0" rule: tag_cases)
  case 1
  have "(take 1 b @ extra) \<noteq> []" "drop_bit 6 ((take 1 b @ extra) ! 0) = 0" for extra
    using assms 1 by (simp_all add: nth_append)
  then have "Parse (take 1 b @ extra) = Inr (ucast (b ! 0 AND 0x3f), 1, None)" for extra
    using assms by (simp add: Parse_tag0 nth_append)
  then show ?thesis
    using assms 1 by (simp add: declared_length_tag Parse_tag0)
next
  case 2
  then have l: "2 \<le> length b" using assms by (simp add: declared_length_tag)
  then have "(take 2 b @ extra) \<noteq> []" "drop_bit 6 ((take 2 b @ extra) ! 0) = 1" for extra
    using assms 2 by (simp_all add: nth_append)
  then have "Parse (take 2 b @ extra) =
      Inr (push_bit 8 (ucast (b ! 0 AND 0x3f)) OR ucast (b ! 1), 2, None)" for extra
    using l by (simp add: Parse_tag1 nth_append)
  then show ?thesis
    using assms 2 l by (simp add: declared_length_tag Parse_tag1)
next
  case 3
  then have l: "4 \<le> length b" using assms by (simp add: declared_length_tag)
  then have "(take 4 b @ extra) \<noteq> []" "drop_bit 6 ((take 4 b @ extra) ! 0) = 2" for extra
    using assms 3 by (simp_all add: nth_append)
  then have "Parse (take 4 b @ extra) =
      Inr (push_bit 8 (push_bit 8 (push_bit 8 (ucast (b ! 0 AND 0x3f))
             OR ucast (b ! 1)) OR ucast (b ! 2)) OR ucast (b ! 3), 4, None)" for extra
    using l by (simp add: Parse_tag2 nth_append)
  then show ?thesis
    using assms 3 l by (simp add: declared_length_tag Parse_tag2)
next
  case 4
  then have l: "8 \<le> length b" using assms by (simp add: declared_length_tag)
  then have "(take 8 b @ extra) \<noteq> []" "drop_bit 6 ((take 8 b @ extra) ! 0) = 3" for extra
    using assms 4 by (simp_all add: nth_append)
  then have "Parse (take 8 b @ extra) =
      Inr (push_bit 8 (push_bit 8 (push_bit 8 (push_bit 8 (push_bit 8 (push_bit 8 (push_bit 8
             (ucast (b ! 0 AND 0x3f))
             OR ucast (b ! 1)) OR ucast (b ! 2)) OR ucast (b ! 3)) OR ucast (b ! 4))
             OR ucast (b ! 5)) OR ucast (b ! 6)) OR ucast (b ! 7), 8, None)" for extra
    using l by (simp add: Parse_tag3 nth_append)
  then show ?thesis
    using assms 4 l by (simp add: declared_length_tag Parse_tag3)
qed

theorem Parse_bounded_consumption_witness:
  "[0x41, 0x2C, 0xAA, 0xBB] \<noteq> ([] :: byte list) \<and>
   declared_length ([0x41, 0x2C, 0xAA, 0xBB] ! 0) \<le> int (length [0x41, 0x2C, 0xAA, 0xBB :: byte]) \<and>
   (\<exists>val. Parse [0x41, 0x2C, 0xAA, 0xBB] = Inr (val, 2, None) \<and>
       (\<forall>extra. Parse ([0x41, 0x2C] @ extra) = Inr (val, 2, None)))"
  using Parse_bounded_consumption [of "[0x41, 0x2C, 0xAA, 0xBB]"]
  by (simp add: declared_length_def)

section \<open>Write pushes the bytes of Append\<close>

text \<open>
  C7. For every \<open>v\<close> in \<open>[0, 2\<^sup>6\<^sup>2 - 1]\<close> and every sink that accepts all writes,
  \<open>Write\<close> succeeds and the bytes pushed to the sink, in the order of the pushes, are
  exactly the bytes of \<open>Append([], v)\<close>; for \<open>v > 2\<^sup>6\<^sup>2 - 1\<close>, \<open>Write\<close> fails with the
  out-of-range panic before any byte is pushed.
\<close>

theorem Write_pushes_Append:
  "(v \<le> Max \<and> (\<forall>w c. fst (WriteByte w c) = None) \<longrightarrow>
      (\<exists>enc w'. Append [] v = Inr enc \<and>
                 Write (recording WriteByte) (w, []) v = (Inr None, (w', enc)))) \<and>
   (Max < v \<longrightarrow> Write (recording WriteByte) (w, []) v = (Inl (varintLengthError v), (w, [])))"
proof (intro conjI impI)
  assume "v \<le> Max \<and> (\<forall>w c. fst (WriteByte w c) = None)"
  then have "v \<le> Max" and a: "\<forall>w c. fst (WriteByte w c) = None" by simp_all
  from \<open>v \<le> Max\<close>
  show "\<exists>enc w'. Append [] v = Inr enc \<and>
                 Write (recording WriteByte) (w, []) v = (Inr None, (w', enc))"
    by (cases v rule: size_cases)
      (simp_all add: Append_def Write_def recording_accepting [OF a])
next
  assume "Max < v"
  from out_of_range [OF this]
  show "Write (recording WriteByte) (w, []) v = (Inl (varintLengthError v), (w, []))"
    by (simp add: Write_def)
qed

theorem Write_pushes_Append_witness:
  "(300 :: uint64) \<le> Max \<and> (\<forall>w c. fst (discardByteWriter_WriteByte w c) = None) \<and>
   (\<exists>enc w'. Append [] 300 = Inr enc \<and>
      Write (recording discardByteWriter_WriteByte) ((), []) 300 = (Inr None, (w', enc))) \<and>
   Max < 2 ^ 62 \<and>
   Write (recording discardByteWriter_WriteByte) ((), []) (2 ^ 62) = (Inl (varintLengthError (2 ^ 62)), ((), []))"
  using Write_pushes_Append [of 300 discardByteWriter_WriteByte "()"]
    Write_pushes_Append [of "2 ^ 62" discardByteWriter_WriteByte "()"]
  by (simp add: Max_def discardByteWriter_WriteByte_def)

section \<open>Reading from a stream and parsing a slice agree\<close>

text \<open>
  C6. For every \<open>v\<close> in \<open>[0, 2\<^sup>6\<^sup>2 - 1]\<close>, \<open>Read\<close> from a byte source that holds
  exactly the bytes of \<open>Append([], v)\<close> succeeds and returns the value that \<open>Parse\<close>
  returns for these bytes; the source is left empty.
\<close>

theorem Read_agrees_with_Parse:
  assumes "v \<le> Max"
  shows "\<exists>enc val n. Append [] v = Inr enc \<and> Parse enc = Inr (val, n, None) \<and>
           Read bytesReader_ReadByte enc = (Inr (val, None), [])"
  using assms
proof (cases v rule: size_cases)
  case 1
  then show ?thesis by (simp add: Append_def Parse_enc1 Read_enc1)
next
  case 2
  then show ?thesis by (simp add: Append_def Parse_enc2 Read_enc2)
next
  case 4
  then show ?thesis by (simp add: Append_def Parse_enc4 Read_enc4)
next
  case 8
  then show ?thesis by (simp add: Append_def Parse_enc8 Read_enc8)
qed

theorem Read_agrees_with_Parse_witness:
  "(70000 :: uint64) \<le> Max \<and>
   (\<exists>enc val n. Append [] 70000 = Inr enc \<and> Parse enc = Inr (val, n, None) \<and>
           Read bytesReader_ReadByte enc = (Inr (val, None), []))"
  using Read_agrees_with_Parse [of 70000] by (simp add: Max_def)

section \<open>Decoded values can be encoded again\<close>

text \<open>
  C10. For every input byte sequence, a value that \<open>Parse\<close> returns without error, and
  a value that \<open>Read\<close> returns without error from any byte source, is at most
  \<open>Max = 2\<^sup>6\<^sup>2 - 1\<close>; hence it can be encoded again: \<open>Append\<close> does not fail on it.
\<close>

theorem decoded_value_in_domain:
  "(\<forall>val n. Parse b = Inr (val, n, None) \<longrightarrow>
       val \<le> Max \<and> (\<exists>enc. Append [] val = Inr enc)) \<and>
   (\<forall>val. fst (Read ReadByte r) = Inr (val, None) \<longrightarrow>
       val \<le> Max \<and> (\<exists>enc. Append [] val = Inr enc))"
proof (intro conjI allI impI)
  fix val n
  assume "Parse b = Inr (val, n, None)"
  then have d: "drop_bit 62 val = 0" by (rule Parse_value_bound)
  from Append_in_range [OF d]
  show "val \<le> Max" and "\<exists>enc. Append [] val = Inr enc" .
next
  fix val
  assume "fst (Read ReadByte r) = Inr (val, None)"
  then have d: "drop_bit 62 val = 0" by (rule Read_value_bound)
  from Append_in_range [OF d]
  show "val \<le> Max" and "\<exists>enc. Append [] val = Inr enc" .
qed

theorem decoded_value_in_domain_witness:
  "Parse [0xFF, 0xFF, 0xFF, 0xFF, 0xFF, 0xFF, 0xFF, 0xFF] = Inr (Max, 8, None) \<and>
   fst (Read bytesReader_ReadByte [0xFF, 0xFF, 0xFF, 0xFF, 0xFF, 0xFF, 0xFF, 0xFF]) =
     Inr (Max, None) \<and>
   Max \<le> Max \<and> (\<exists>enc. Append [] Max = Inr enc)"
proof -
  have p: "Parse [0xFF, 0xFF, 0xFF, 0xFF, 0xFF, 0xFF, 0xFF, 0xFF] = Inr (Max, 8, None)"
    by (simp add: Parse_def Parse_loop.simps Max_def)
  have r: "fst (Read bytesReader_ReadByte [0xFF, 0xFF, 0xFF, 0xFF, 0xFF, 0xFF, 0xFF, 0xFF]) =
     Inr (Max, None)"
    by (simp add: Read_def ReadByte_or_return_def Max_def)
  from decoded_value_in_domain [of "[0xFF, 0xFF, 0xFF, 0xFF, 0xFF, 0xFF, 0xFF, 0xFF]"
      bytesReader_ReadByte "[0xFF, 0xFF, 0xFF, 0xFF, 0xFF, 0xFF, 0xFF, 0xFF]"]
  show ?thesis unfolding p r by simp
qed

section \<open>Errors of Read on an exhausted source\<close>

text \<open>
  C4. \<open>Read\<close> fails with \<open>io.EOF\<close> when the byte source is exhausted before the first
  byte of a value, and is to fail with the distinct error \<open>io.ErrUnexpectedEOF\<close> when
  the source is exhausted after the tag byte but before all remaining bytes declared by
  the tag are read. The first half holds. The second does not: \<open>Read\<close> returns the
  error of \<open>ReadByte\<close> as it is, so on a \<open>bytes.Reader\<close> that holds the single byte
  0x40, whose tag declares two bytes, it returns \<open>(0, io.EOF)\<close>, the answer it also
  gives on an empty source, where \<open>Parse\<close> on the same byte returns
  \<open>io.ErrUnexpectedEOF\<close>.
\<close>

theorem Read_truncated_returns_EOF:
  "Read bytesReader_ReadByte [] = (Inr (0, Some EOF), []) \<and>
   declared_length 0x40 = 2 \<and>
   Read bytesReader_ReadByte [0x40] = (Inr (0, Some EOF), []) \<and>
   Parse [0x40] = Inr (0, 0, Some ErrUnexpectedEOF)"
  by (simp add: Read_def ReadByte_or_return_def Parse_def declared_length_def)

end
